theory Spec2Isabelle
  imports Complex_Main
begin

section \<open>JavaScript numbers\<close>

text \<open>
  The threshold \<open>requiredApprovesAmount\<close> is a JavaScript number: the result of
  \<open>Number.parseInt\<close> in one entry point and of \<open>Number\<close> in the other. It can
  be \<open>NaN\<close> or infinite, and every comparison with \<open>NaN\<close> is false. A finite
  value is kept as the rational that the double denotes; the two zeros are one value,
  which no comparison tells apart.
\<close>

datatype jsnum = NaN | Fin rat | PosInf | NegInf

fun js_neg :: "jsnum \<Rightarrow> jsnum" where
  "js_neg NaN = NaN"
| "js_neg (Fin q) = Fin (- q)"
| "js_neg PosInf = NegInf"
| "js_neg NegInf = PosInf"

text \<open>
  The double nearest to the ratio \<open>a / b\<close> of two natural numbers, \<open>b\<close> positive,
  which is how a decimal literal becomes a number: with \<open>2 ^ e\<close> the power of two
  at or below the ratio, the ratio is rounded to a multiple of \<open>2 ^ p\<close>, where
  \<open>p = e - 52\<close> (53 significant bits) and at least \<open>- 1074\<close> (the subnormal
  numbers), to the nearest one and to the even one of two that are equally near. A
  result of \<open>2 ^ 1024\<close> or more is \<open>Infinity\<close>; a ratio below half of
  \<open>2 ^ - 1074\<close> is \<open>0\<close>. \<open>bit_length n\<close> is the number of binary digits of
  \<open>n\<close>.
\<close>

fun bit_length :: "nat \<Rightarrow> nat" where
  "bit_length n = (if n = 0 then 0 else Suc (bit_length (n div 2)))"

declare bit_length.simps [simp del]

definition pow2 :: "int \<Rightarrow> rat" where
  "pow2 p = (if 0 \<le> p then 2 ^ nat p else 1 / 2 ^ nat (- p))"

definition round_half_even :: "nat \<Rightarrow> nat \<Rightarrow> nat" where
  "round_half_even N D =
     (let quo = N div D; rem = N mod D
      in if 2 * rem < D then quo
         else if D < 2 * rem then quo + 1
         else if even quo then quo else quo + 1)"

definition round_to_double :: "nat \<Rightarrow> nat \<Rightarrow> jsnum" where
  "round_to_double a b =
     (if a = 0 then Fin 0
      else
        (let d = int (bit_length a) - int (bit_length b);
             e = (if b * 2 ^ nat d \<le> a * 2 ^ nat (- d) then d else d - 1);
             p = max (e - 52) (- 1074);
             m = round_half_even (a * 2 ^ nat (- p)) (b * 2 ^ nat p);
             v = of_nat m * pow2 p
         in if 2 ^ 1024 \<le> v then PosInf else Fin v))"

text \<open>The double nearest to \<open>m\<close> times a power of ten.\<close>

definition decimal_to_double :: "nat \<Rightarrow> int \<Rightarrow> jsnum" where
  "decimal_to_double m k =
     (if 0 \<le> k then round_to_double (m * 10 ^ nat k) 1
      else round_to_double m (10 ^ nat (- k)))"

text \<open>\<open>a <= b\<close> and \<open>a < b\<close> of JavaScript.\<close>

fun js_le :: "jsnum \<Rightarrow> jsnum \<Rightarrow> bool" where
  "js_le NaN b = False"
| "js_le a NaN = False"
| "js_le NegInf b = True"
| "js_le a PosInf = True"
| "js_le (Fin a) (Fin b) = (a \<le> b)"
| "js_le a b = False"

fun js_lt :: "jsnum \<Rightarrow> jsnum \<Rightarrow> bool" where
  "js_lt NaN b = False"
| "js_lt a NaN = False"
| "js_lt (Fin a) (Fin b) = (a < b)"
| "js_lt NegInf NegInf = False"
| "js_lt NegInf b = True"
| "js_lt PosInf b = False"
| "js_lt a PosInf = True"
| "js_lt a NegInf = False"

text \<open>\<open>a >= b\<close> and \<open>a > b\<close> are the same comparisons with the operands swapped.\<close>

definition js_ge :: "jsnum \<Rightarrow> jsnum \<Rightarrow> bool" where
  "js_ge a b = js_le b a"

definition js_gt :: "jsnum \<Rightarrow> jsnum \<Rightarrow> bool" where
  "js_gt a b = js_lt b a"

text \<open>The length of an array, as a JavaScript number.\<close>

definition js_of_nat :: "nat \<Rightarrow> jsnum" where
  "js_of_nat n = Fin (of_nat n)"

section \<open>Reviews and the review progress map\<close>

text \<open>
  \<open>enum ReviewState\<close> has string values, and \<open>review.state as ReviewState\<close> is a
  cast that checks nothing: a state is whatever string the platform sent.
\<close>

type_synonym ReviewState = string

definition Approved :: ReviewState where
  "Approved = ''APPROVED''"

definition ChangesRequested :: ReviewState where
  "ChangesRequested = ''CHANGES_REQUESTED''"

definition Pending :: ReviewState where
  "Pending = ''PENDING''"

text \<open>
  An element of \<open>postedReviews.data\<close>: \<open>user\<close> is \<open>None\<close> when the platform sends
  \<open>null\<close>, and \<open>login\<close> is \<open>None\<close> when that field is \<open>null\<close> or missing.
\<close>

datatype gh_user = GhUser (login: "string option")

record review =
  user :: "gh_user option"
  state :: ReviewState

text \<open>\<open>review.user?.login\<close>; the source tests it with \<open>!= null\<close>.\<close>

definition review_login :: "review \<Rightarrow> string option" where
  "review_login r = (case user r of None \<Rightarrow> None | Some u \<Rightarrow> login u)"

text \<open>
  A JavaScript \<open>Map\<close> keeps its entries in insertion order: the list of its entries.
  \<open>Map.prototype.set\<close> replaces the value of a key that is present, where it stands,
  and appends an entry for a new key.
\<close>

type_synonym ('k, 'v) js_map = "('k \<times> 'v) list"

fun map_set :: "'k \<Rightarrow> 'v \<Rightarrow> ('k, 'v) js_map \<Rightarrow> ('k, 'v) js_map" where
  "map_set k v [] = [(k, v)]"
| "map_set k v ((k', v') # m) =
     (if k' = k then (k, v) # m else (k', v') # map_set k v m)"

text \<open>\<open>Map.prototype.get\<close> (\<open>None\<close> for \<open>undefined\<close>) and \<open>Array.from(m.values())\<close>.\<close>

fun map_get :: "('k, 'v) js_map \<Rightarrow> 'k \<Rightarrow> 'v option" where
  "map_get [] k = None"
| "map_get ((k', v') # m) k = (if k' = k then Some v' else map_get m k)"

definition map_values :: "('k, 'v) js_map \<Rightarrow> 'v list" where
  "map_values m = map snd m"

definition map_keys :: "('k, 'v) js_map \<Rightarrow> 'k list" where
  "map_keys m = map fst m"

text \<open>The body of \<open>postedReviews.data.forEach\<close> in both approval entry points.\<close>

definition post_review :: "(string, ReviewState) js_map \<Rightarrow> review \<Rightarrow> (string, ReviewState) js_map" where
  "post_review m r =
     (case review_login r of
        None \<Rightarrow> m
      | Some l \<Rightarrow> map_set l (state r) m)"

text \<open>The body of \<open>requestedReviewers.data.users.forEach\<close>, on the reviewer's login.\<close>

definition request_pending :: "(string, ReviewState) js_map \<Rightarrow> string \<Rightarrow> (string, ReviewState) js_map" where
  "request_pending m l = map_set l Pending m"

text \<open>
  \<open>codeReviewProgress\<close> after the two \<open>forEach\<close> passes over the posted reviews and
  over the logins of the requested reviewers, starting from \<open>new Map()\<close>.
\<close>

definition after_reviews :: "review list \<Rightarrow> (string, ReviewState) js_map" where
  "after_reviews postedReviews = foldl post_review [] postedReviews"

definition codeReviewProgress :: "review list \<Rightarrow> string list \<Rightarrow> (string, ReviewState) js_map" where
  "codeReviewProgress postedReviews requestedReviewers =
     foldl request_pending (after_reviews postedReviews) requestedReviewers"

section \<open>The approval verdict\<close>

definition approvesAmount :: "(string, ReviewState) js_map \<Rightarrow> nat" where
  "approvesAmount m = length (filter (\<lambda>reviewState. reviewState = Approved) (map_values m))"

definition changesRequestedAmount :: "(string, ReviewState) js_map \<Rightarrow> nat" where
  "changesRequestedAmount m =
     length (filter (\<lambda>reviewState. reviewState = ChangesRequested) (map_values m))"

definition isApproved :: "(string, ReviewState) js_map \<Rightarrow> jsnum \<Rightarrow> bool" where
  "isApproved m requiredApprovesAmount =
     (js_ge (js_of_nat (approvesAmount m)) requiredApprovesAmount \<and> changesRequestedAmount m = 0)"

section \<open>The lead reviewer verdict\<close>

text \<open>
  A JavaScript \<open>Set\<close> keeps its elements in insertion order; \<open>Set.prototype.add\<close>
  leaves the set as it is when the element is present.
\<close>

definition set_add :: "'a list \<Rightarrow> 'a \<Rightarrow> 'a list" where
  "set_add s x = (if x \<in> set s then s else s @ [x])"

definition add_review_author :: "string list \<Rightarrow> review \<Rightarrow> string list" where
  "add_review_author s r =
     (case review_login r of
        None \<Rightarrow> s
      | Some l \<Rightarrow> set_add s l)"

text \<open>
  \<open>requestedReviewers\<close> of the lead reviewer entry point after its two \<open>forEach\<close>
  passes, starting from \<open>new Set()\<close>.
\<close>

definition requestedReviewers :: "review list \<Rightarrow> string list \<Rightarrow> string list" where
  "requestedReviewers postedReviews pendingReviewers =
     foldl set_add (foldl add_review_author [] postedReviews) pendingReviewers"

text \<open>
  The \<open>for ... of\<close> loop with its \<open>break\<close>:
  \<open>Array.from(requestedReviewers).find(r => r === reviewer) == null\<close> is
  \<open>find\<close> returning \<open>None\<close>, since no string is \<open>null\<close> or \<open>undefined\<close>.
\<close>

fun areLeadReviewersInvited :: "string list \<Rightarrow> string list \<Rightarrow> bool" where
  "areLeadReviewersInvited invited [] = True"
| "areLeadReviewersInvited invited (reviewer # rest) =
     (if find (\<lambda>requestedReviewer. requestedReviewer = reviewer) invited = None
      then False
      else areLeadReviewersInvited invited rest)"

section \<open>Reading the required number of approvals\<close>

subsection \<open>Strings and the library functions the parsers call\<close>

text \<open>
  A string is a list of 8-bit characters: the input is modelled as ASCII text, which is
  what a decimal threshold is. The white space that \<open>parseInt\<close> and \<open>Number\<close> skip
  is tab, line feed, vertical tab, form feed, carriage return and space.
\<close>

definition isWhiteSpace :: "char \<Rightarrow> bool" where
  "isWhiteSpace c = (of_char c \<in> {9, 10, 11, 12, 13, 32 :: nat})"

definition isDigit :: "char \<Rightarrow> bool" where
  "isDigit c = (c \<in> set ''0123456789'')"

definition digit_value :: "char \<Rightarrow> nat" where
  "digit_value c = of_char c - 48"

definition digits_value :: "string \<Rightarrow> nat" where
  "digits_value ds = foldl (\<lambda>acc c. 10 * acc + digit_value c) 0 ds"

text \<open>
  \<open>/\d{1,2}/.test(s)\<close>. The pattern has no anchor and no flag: \<open>test\<close> tries every
  start position in turn, and at a position the quantifier takes one digit and then a
  second one when there is one. \<open>match_digits_1_2\<close> is the length matched at the head
  of the string.
\<close>

fun match_digits_1_2 :: "string \<Rightarrow> nat option" where
  "match_digits_1_2 [] = None"
| "match_digits_1_2 [c] = (if isDigit c then Some 1 else None)"
| "match_digits_1_2 (c # d # rest) =
     (if isDigit c then (if isDigit d then Some 2 else Some 1) else None)"

fun regex_digits_test :: "string \<Rightarrow> bool" where
  "regex_digits_test [] = (match_digits_1_2 [] \<noteq> None)"
| "regex_digits_test (c # rest) =
     (if match_digits_1_2 (c # rest) \<noteq> None then True else regex_digits_test rest)"

text \<open>
  \<open>Number.parseInt(s, 10)\<close>: leading white space is dropped, one sign is read, the
  longest prefix of decimal digits is read, and what follows it is ignored; no digit
  at that place gives \<open>NaN\<close>. The result is the double nearest to the integer that
  the digits write, \<open>Infinity\<close> when that integer is beyond the doubles, with the
  sign. (Past the 20th significant digit the language lets an engine read the digits
  as zeros; the model reads them all.)
\<close>

definition parseInt :: "string \<Rightarrow> jsnum" where
  "parseInt inputString =
     (let S = dropWhile isWhiteSpace inputString;
          negative = (case S of c # _ \<Rightarrow> c = CHR ''-'' | [] \<Rightarrow> False);
          S' = (case S of c # rest \<Rightarrow> if c = CHR ''+'' \<or> c = CHR ''-'' then rest else S | [] \<Rightarrow> S);
          Z = takeWhile isDigit S'
      in if Z = [] then NaN
         else if negative then js_neg (round_to_double (digits_value Z) 1)
         else round_to_double (digits_value Z) 1)"

text \<open>
  \<open>Number(s)\<close> on a string: white space is trimmed on both sides, the empty string is
  \<open>0\<close>, and the rest has to be, as a whole, a signed decimal literal (digits, a
  fraction, an exponent, or \<open>Infinity\<close>) or an unsigned literal in base 16, 8 or 2;
  anything else is \<open>NaN\<close>. The value of a literal is the double nearest to what it
  writes: a literal too small is \<open>0\<close> and one too large is \<open>Infinity\<close>. (Here too
  the language lets an engine read the digits past the 20th significant one as zeros;
  the model reads them all.)
\<close>

definition trim_ws :: "string \<Rightarrow> string" where
  "trim_ws s = rev (dropWhile isWhiteSpace (rev (dropWhile isWhiteSpace s)))"

fun exponent_part :: "string \<Rightarrow> int option" where
  "exponent_part [] = Some 0"
| "exponent_part (c # rest) =
     (if c = CHR ''e'' \<or> c = CHR ''E'' then
        (let sign = (case rest of d # _ \<Rightarrow> if d = CHR ''-'' then - 1 else 1 | [] \<Rightarrow> (1 :: int));
             ds = (case rest of d # r \<Rightarrow> if d = CHR ''+'' \<or> d = CHR ''-'' then r else rest | [] \<Rightarrow> rest)
         in if ds \<noteq> [] \<and> list_all isDigit ds then Some (sign * int (digits_value ds)) else None)
      else None)"

definition unsigned_decimal :: "string \<Rightarrow> jsnum" where
  "unsigned_decimal s =
     (if s = ''Infinity'' then PosInf
      else
        (let ip = takeWhile isDigit s; r = dropWhile isDigit s
         in case r of
              c # r' \<Rightarrow>
                if c = CHR ''.'' then
                  (let fp = takeWhile isDigit r'; r'' = dropWhile isDigit r'
                   in if ip = [] \<and> fp = [] then NaN
                      else (case exponent_part r'' of
                              None \<Rightarrow> NaN
                            | Some e \<Rightarrow>
                                decimal_to_double (digits_value (ip @ fp))
                                  (e - int (length fp))))
                else if ip = [] then NaN
                else (case exponent_part r of
                        None \<Rightarrow> NaN
                      | Some e \<Rightarrow> decimal_to_double (digits_value ip) e)
            | [] \<Rightarrow> if ip = [] then NaN else decimal_to_double (digits_value ip) 0))"

definition radix_digit :: "nat \<Rightarrow> char \<Rightarrow> nat option" where
  "radix_digit radix c =
     (let v = (if isDigit c then Some (digit_value c)
               else if c \<in> set ''abcdef'' then Some (of_char c - 87)
               else if c \<in> set ''ABCDEF'' then Some (of_char c - 55)
               else None)
      in case v of None \<Rightarrow> None | Some n \<Rightarrow> if n < radix then Some n else None)"

definition radix_value :: "nat \<Rightarrow> string \<Rightarrow> nat option" where
  "radix_value radix ds =
     (if ds \<noteq> [] \<and> list_all (\<lambda>c. radix_digit radix c \<noteq> None) ds
      then Some (foldl (\<lambda>acc c. radix * acc + (case radix_digit radix c of Some n \<Rightarrow> n | None \<Rightarrow> 0)) 0 ds)
      else None)"

definition non_decimal :: "string \<Rightarrow> nat option" where
  "non_decimal s =
     (case s of
        z # p # ds \<Rightarrow>
          if z \<noteq> CHR ''0'' then None
          else if p = CHR ''x'' \<or> p = CHR ''X'' then radix_value 16 ds
          else if p = CHR ''o'' \<or> p = CHR ''O'' then radix_value 8 ds
          else if p = CHR ''b'' \<or> p = CHR ''B'' then radix_value 2 ds
          else None
      | _ \<Rightarrow> None)"

definition jsNumber :: "string \<Rightarrow> jsnum" where
  "jsNumber s =
     (let t = trim_ws s
      in case t of
           [] \<Rightarrow> Fin 0
         | c # rest \<Rightarrow>
             (case non_decimal t of
                Some n \<Rightarrow> round_to_double n 1
              | None \<Rightarrow>
                  if c = CHR ''+'' then unsigned_decimal rest
                  else if c = CHR ''-'' then js_neg (unsigned_decimal rest)
                  else unsigned_decimal t))"

definition js_isNaN :: "jsnum \<Rightarrow> bool" where
  "js_isNaN x = (x = NaN)"

subsection \<open>The effects of an invocation\<close>

text \<open>
  What an invocation does to the outside, in order: \<open>setFailed\<close>, \<open>setOutput\<close> and
  \<open>info\<close> of the Actions toolkit, and the \<open>console\<close> calls with their arguments.
\<close>

datatype log_arg =
    LStr string
  | LNum nat
  | LBool bool
  | LMap "(string, ReviewState) js_map"

datatype effect =
    SetFailed string
  | SetOutput string string
  | Info string
  | ConsoleGroup "log_arg list"
  | ConsoleLog "log_arg list"
  | ConsoleGroupEnd

fun is_SetFailed :: "effect \<Rightarrow> bool" where
  "is_SetFailed (SetFailed msg) = True"
| "is_SetFailed e = False"

fun is_SetOutput :: "effect \<Rightarrow> bool" where
  "is_SetOutput (SetOutput name v) = True"
| "is_SetOutput e = False"

subsection \<open>The two versions of \<open>getRequiredApprovesAmount\<close>\<close>

text \<open>
  Both take the string that \<open>getInput(ActionInput.RequiredApprovesAmount)\<close> returns,
  which is empty when the input is not set.
\<close>

definition DEFAULT_AMOUNT :: jsnum where
  "DEFAULT_AMOUNT = Fin 1"

text \<open>The version with the regular expression; it has no effect on the outside.\<close>

definition getRequiredApprovesAmount_regex :: "string \<Rightarrow> jsnum" where
  "getRequiredApprovesAmount_regex approvesAmountFromConfig =
     (if regex_digits_test approvesAmountFromConfig then
        (let approvesAmount = parseInt approvesAmountFromConfig
         in if js_gt approvesAmount (Fin 0) then approvesAmount else DEFAULT_AMOUNT)
      else DEFAULT_AMOUNT)"

text \<open>
  The version with \<open>Number\<close>: it returns its effects and the number. After
  \<open>setFailed\<close> it goes on and returns the number it has.
\<close>

definition getRequiredApprovesAmount_number :: "string \<Rightarrow> effect list \<times> jsnum" where
  "getRequiredApprovesAmount_number approvesAmountFromConfig =
     (if approvesAmountFromConfig = [] then ([], DEFAULT_AMOUNT)
      else
        (let approvesAmount = jsNumber approvesAmountFromConfig
         in (if js_isNaN approvesAmount \<or> js_le approvesAmount (Fin 0)
             then [SetFailed ''Incorrect value of the `requiredApprovesAmount` input'']
             else [],
             approvesAmount)))"

section \<open>The three entry points\<close>

text \<open>
  Each \<open>run\<close> reads the outside once and acts on it. What it reads is a record of
  outcomes: a call that can throw has the type \<open>exn + 'a\<close>, with the message of the
  \<open>Error\<close> on the left. \<open>try ... catch\<close> around the body of \<open>run\<close> turns such an
  error into \<open>setFailed(error.message)\<close> and ends the invocation. The result of \<open>run\<close>
  is the list of its effects, in the order they happen.
\<close>

type_synonym exn = string

record GithubEnv =
  token :: "string option"
  repositoryPath :: "string option"
  eventPath :: "string option"

definition doesGithubEnvExist :: "GithubEnv \<Rightarrow> bool" where
  "doesGithubEnvExist githubEnv =
     (token githubEnv \<noteq> None \<and> repositoryPath githubEnv \<noteq> None \<and> eventPath githubEnv \<noteq> None)"

text \<open>
  The event payload: \<open>action\<close> is \<open>None\<close> when the payload has none, and
  \<open>pull_request\<close> is the number of the pull request, \<open>None\<close> when the payload has no
  pull request.
\<close>

record WebhookPayload =
  action :: "string option"
  pull_request :: "nat option"

definition env_msg :: string where
  "env_msg = ''GITHUB_TOKEN, GITHUB_REPOSITORY or GITHUB_EVENT doesn't set''"

definition no_pr_msg :: string where
  "no_pr_msg = ''This event doesn't contain PR''"

definition bool_str :: "bool \<Rightarrow> string" where
  "bool_str b = (if b then ''true'' else ''false'')"

subsection \<open>Approvals, with the check of the action\<close>

text \<open>The guard of this file, which the other two files call \<open>doesGithubEnvExist\<close>.\<close>

definition isExistGithubEnvironmentVariables :: "GithubEnv \<Rightarrow> bool" where
  "isExistGithubEnvironmentVariables githubEnv =
     (token githubEnv \<noteq> None \<and> repositoryPath githubEnv \<noteq> None \<and> eventPath githubEnv \<noteq> None)"

definition isAcceptableAction :: "string option \<Rightarrow> bool" where
  "isAcceptableAction a = (a = Some ''submitted'' \<or> a = Some ''review_requested'')"

text \<open>A value that may be \<open>undefined\<close>, inside a template literal.\<close>

definition template_str :: "string option \<Rightarrow> string" where
  "template_str v = (case v of None \<Rightarrow> ''undefined'' | Some s \<Rightarrow> s)"

text \<open>
  The part both approval entry points share, from \<open>Array.from(codeReviewProgress.values())\<close>
  to the last \<open>console.groupEnd()\<close>.
\<close>

definition report_approval :: "(string, ReviewState) js_map \<Rightarrow> jsnum \<Rightarrow> effect list" where
  "report_approval m requiredApprovesAmount =
     [SetOutput ''isApproved'' (bool_str (isApproved m requiredApprovesAmount)),
      ConsoleGroup [],
      ConsoleLog [LStr ''Code review summary:''],
      ConsoleGroup [],
      ConsoleLog [LMap m],
      ConsoleLog [LStr ''total `Approved` amount:'', LNum (approvesAmount m)],
      ConsoleLog [LStr ''total `Change Requested` amount:'', LNum (changesRequestedAmount m)],
      ConsoleGroupEnd,
      ConsoleLog [LStr ''Is pull requested approved?'', LBool (isApproved m requiredApprovesAmount)],
      ConsoleGroupEnd]"

record review_world =
  rw_token :: "string option"
  rw_repository :: "string option"
  rw_event_path :: "string option"
  rw_event_name :: "string option"
  rw_getGithubPayload :: "string \<Rightarrow> exn + WebhookPayload"
  rw_input :: string
  rw_listReviews :: "exn + review list"
  rw_listRequestedReviewers :: "exn + string list"

text \<open>
  \<open>run\<close> of the entry point that has \<open>isAcceptableAction\<close>. The two requests are
  awaited one after the other. The branch \<open>None\<close> of \<open>eventPath\<close> is never taken
  after the guard.
\<close>

definition run_review :: "review_world \<Rightarrow> effect list" where
  "run_review w =
     (let githubEnv = \<lparr>token = rw_token w, repositoryPath = rw_repository w,
                        eventPath = rw_event_path w\<rparr>
      in if \<not> isExistGithubEnvironmentVariables githubEnv then [SetFailed env_msg]
         else case eventPath githubEnv of
           None \<Rightarrow> []
         | Some path \<Rightarrow>
            (case rw_getGithubPayload w path of
               Inl e \<Rightarrow> [SetFailed e]
             | Inr payload \<Rightarrow>
                 if pull_request payload = None then [SetFailed no_pr_msg]
                 else if isAcceptableAction (action payload) then
                   (let requiredApprovesAmount = getRequiredApprovesAmount_regex (rw_input w)
                    in case rw_listReviews w of
                         Inl e \<Rightarrow> [SetFailed e]
                       | Inr postedReviews \<Rightarrow>
                           (case rw_listRequestedReviewers w of
                              Inl e \<Rightarrow> [SetFailed e]
                            | Inr requested \<Rightarrow>
                                report_approval (codeReviewProgress postedReviews requested)
                                  requiredApprovesAmount))
                 else [Info (template_str (rw_event_name w) @ ''/''
                             @ template_str (action payload) @ ''/ isn't supported.'')]))"

subsection \<open>Approvals, without the check of the action\<close>

record approval_world =
  aw_token :: "string option"
  aw_repository :: "string option"
  aw_event_path :: "string option"
  aw_getGithubPayload :: "string \<Rightarrow> exn + WebhookPayload"
  aw_input :: string
  aw_requests :: "exn + review list \<times> string list"

text \<open>
  \<open>run\<close> of the entry point that reads the threshold with \<open>Number\<close>. The two requests
  are awaited together by \<open>Promise.all\<close>: \<open>aw_requests\<close> is the outcome of that, the
  reviews and the logins of the requested reviewers, or the error that rejected first.
\<close>

definition run_approval :: "approval_world \<Rightarrow> effect list" where
  "run_approval w =
     (let githubEnv = \<lparr>token = aw_token w, repositoryPath = aw_repository w,
                        eventPath = aw_event_path w\<rparr>
      in if \<not> doesGithubEnvExist githubEnv then [SetFailed env_msg]
         else case eventPath githubEnv of
           None \<Rightarrow> []
         | Some path \<Rightarrow>
            (case aw_getGithubPayload w path of
               Inl e \<Rightarrow> [SetFailed e]
             | Inr payload \<Rightarrow>
                 if pull_request payload = None then [SetFailed no_pr_msg]
                 else
                   (let (signals, requiredApprovesAmount) =
                          getRequiredApprovesAmount_number (aw_input w)
                    in signals @
                       (case aw_requests w of
                          Inl e \<Rightarrow> [SetFailed e]
                        | Inr (postedReviews, requested) \<Rightarrow>
                            report_approval (codeReviewProgress postedReviews requested)
                              requiredApprovesAmount))))"

subsection \<open>Lead reviewers\<close>













subsection \<open>Outcomes of the outside, for concrete invocations\<close>

text \<open>An event file that holds the payload \<open>p\<close> whatever its path is.\<close>

definition payload_file :: "WebhookPayload \<Rightarrow> string \<Rightarrow> exn + WebhookPayload" where
  "payload_file p path = Inr p"



section \<open>Properties of the containers\<close>

lemma map_keys_map_set:
  "map_keys (map_set k v m) = (if k \<in> set (map_keys m) then map_keys m else map_keys m @ [k])"
  by (induction m) (force simp: map_keys_def)+

lemma distinct_map_set:
  "distinct (map_keys m) \<Longrightarrow> distinct (map_keys (map_set k v m))"
  by (simp add: map_keys_map_set)

lemma map_get_map_set:
  "map_get (map_set k v m) k' = (if k' = k then Some v else map_get m k')"
  by (induction m) auto

lemma map_get_None_iff: "map_get m k = None \<longleftrightarrow> k \<notin> set (map_keys m)"
  by (induction m) (force simp: map_keys_def)+

lemma map_get_Some_mem: "map_get m k = Some v \<Longrightarrow> (k, v) \<in> set m"
  by (induction m) (auto split: if_splits)

lemma mem_map_get_distinct:
  "distinct (map_keys m) \<Longrightarrow> (k, v) \<in> set m \<Longrightarrow> map_get m k = Some v"
  by (induction m) (auto simp: map_keys_def rev_image_eqI)

lemma distinct_post_review:
  "distinct (map_keys m) \<Longrightarrow> distinct (map_keys (post_review m r))"
  by (simp add: post_review_def distinct_map_set split: option.splits)

lemma distinct_foldl_post_review:
  "distinct (map_keys m) \<Longrightarrow> distinct (map_keys (foldl post_review m rs))"
  by (induction rs arbitrary: m) (simp_all add: distinct_post_review)

lemma distinct_foldl_request_pending:
  "distinct (map_keys m) \<Longrightarrow> distinct (map_keys (foldl request_pending m ls))"
  by (induction ls arbitrary: m) (simp_all add: request_pending_def distinct_map_set)

lemma distinct_codeReviewProgress:
  "distinct (map_keys (codeReviewProgress rs ls))"
  by (simp add: codeReviewProgress_def after_reviews_def map_keys_def
      distinct_foldl_request_pending distinct_foldl_post_review [unfolded map_keys_def]
      distinct_foldl_request_pending [unfolded map_keys_def])

lemma map_get_foldl_request_pending:
  "map_get (foldl request_pending m ls) u = (if u \<in> set ls then Some Pending else map_get m u)"
  by (induction ls arbitrary: m) (auto simp: request_pending_def map_get_map_set)

lemma map_get_foldl_post_review:
  "map_get (foldl post_review m rs) u =
     (let own = filter (\<lambda>r. review_login r = Some u) rs
      in if own = [] then map_get m u else Some (state (last own)))"
proof (induction rs rule: rev_induct)
  case Nil
  show ?case by simp
next
  case (snoc r rs)
  show ?case
  proof (cases "review_login r = Some u")
    case True
    then show ?thesis
      by (simp add: post_review_def map_get_map_set)
  next
    case False
    with snoc show ?thesis
      by (auto simp: post_review_def map_get_map_set Let_def split: option.splits)
  qed
qed

lemma post_review_no_login: "review_login r = None \<Longrightarrow> post_review m r = m"
  by (simp add: post_review_def)

lemma add_review_author_no_login: "review_login r = None \<Longrightarrow> add_review_author s r = s"
  by (simp add: add_review_author_def)

lemma distinct_set_add: "distinct s \<Longrightarrow> distinct (set_add s x)"
  by (simp add: set_add_def)

lemma distinct_foldl_set_add: "distinct s \<Longrightarrow> distinct (foldl set_add s xs)"
  by (induction xs arbitrary: s) (simp_all add: distinct_set_add)

lemma distinct_foldl_add_review_author:
  "distinct s \<Longrightarrow> distinct (foldl add_review_author s rs)"
  by (induction rs arbitrary: s)
    (simp_all add: add_review_author_def distinct_set_add split: option.splits)

lemma distinct_requestedReviewers: "distinct (requestedReviewers rs ls)"
  by (simp add: requestedReviewers_def distinct_foldl_set_add distinct_foldl_add_review_author)

lemma count_entries_map_set:
  "length (filter (\<lambda>e. fst e = k) (map_set k v m)) =
     (if k \<in> set (map_keys m) then length (filter (\<lambda>e. fst e = k) m) else 1)"
  by (induction m) (force simp: map_keys_def)+

lemma count_entries_distinct:
  "distinct (map_keys m) \<Longrightarrow> length (filter (\<lambda>e. fst e = k) m) \<le> 1"
  by (induction m) (force simp: map_keys_def filter_empty_conv)+

lemma finite_holders: "finite {u. map_get m u = Some s}"
proof (rule finite_subset)
  show "{u. map_get m u = Some s} \<subseteq> set (map_keys m)"
    using map_get_None_iff [of m] by force
qed simp

lemma card_holders:
  "distinct (map_keys m) \<Longrightarrow>
   card {u. map_get m u = Some s} = length (filter (\<lambda>v. v = s) (map_values m))"
proof (induction m)
  case Nil
  show ?case by (simp add: map_values_def)
next
  case (Cons e m)
  obtain k v where e: "e = (k, v)" by (cases e)
  from Cons.prems e have fresh: "map_get m k = None" and dist: "distinct (map_keys m)"
    by (simp_all add: map_get_None_iff map_keys_def)
  have split: "{u. map_get (e # m) u = Some s} =
      (if v = s then insert k {u. map_get m u = Some s} else {u. map_get m u = Some s})"
    using fresh by (auto simp: e)
  have notin: "k \<notin> {u. map_get m u = Some s}"
    using fresh by simp
  have "card {u. map_get (e # m) u = Some s} =
      (if v = s then Suc (card {u. map_get m u = Some s}) else card {u. map_get m u = Some s})"
    unfolding split using notin by (simp add: finite_holders)
  also have "\<dots> = length (filter (\<lambda>v. v = s) (map_values (e # m)))"
    using Cons.IH [OF dist] by (simp add: map_values_def e)
  finally show ?case .
qed

lemma areLeadReviewersInvited_subset:
  "areLeadReviewersInvited invited leads \<longleftrightarrow> set leads \<subseteq> set invited"
  by (induction leads) (auto simp: find_None_iff)

lemma approvesAmount_entries:
  "approvesAmount m = length (filter (\<lambda>e. snd e = Approved) m)"
  by (simp add: approvesAmount_def map_values_def filter_map comp_def)

lemma changesRequestedAmount_entries:
  "changesRequestedAmount m = length (filter (\<lambda>e. snd e = ChangesRequested) m)"
  by (simp add: changesRequestedAmount_def map_values_def filter_map comp_def)

lemma changes_requested_blocks:
  "(u, ChangesRequested) \<in> set m \<Longrightarrow> changesRequestedAmount m \<noteq> 0"
  by (force simp: changesRequestedAmount_entries filter_empty_conv)

lemma js_ge_nat: "js_ge (js_of_nat a) (Fin (of_nat n)) \<longleftrightarrow> n \<le> a"
  by (simp add: js_ge_def js_of_nat_def)

lemma review_login_None_iff:
  "review_login r = None \<longleftrightarrow> user r = None \<or> (\<exists>g. user r = Some g \<and> login g = None)"
  by (auto simp: review_login_def split: option.splits)

lemma match_digits_1_2_Cons: "match_digits_1_2 (c # rest) \<noteq> None \<longleftrightarrow> isDigit c"
  by (cases rest) auto

lemma regex_digits_test_iff: "regex_digits_test s \<longleftrightarrow> (\<exists>c \<in> set s. isDigit c)"
proof (induction s)
  case Nil
  show ?case by simp
next
  case (Cons c rest)
  have "regex_digits_test (c # rest) \<longleftrightarrow> isDigit c \<or> regex_digits_test rest"
    using match_digits_1_2_Cons [of c rest] by (simp del: match_digits_1_2.simps)
  with Cons show ?case by simp
qed

text \<open>The rounding to a double.\<close>

lemma bit_length_bounds:
  "0 < n \<Longrightarrow> 2 ^ (bit_length n - 1) \<le> n \<and> n < 2 ^ bit_length n"
proof (induction n rule: bit_length.induct)
  case (1 n)
  show ?case
  proof (cases "n div 2 = 0")
    case True
    with "1.prems" have n: "n = 1" by presburger
    have "bit_length 1 = Suc (bit_length 0)"
      by (subst bit_length.simps) simp
    then show ?thesis by (simp add: n bit_length.simps [of 0])
  next
    case False
    with "1.IH" "1.prems"
    have ih: "2 ^ (bit_length (n div 2) - 1) \<le> n div 2" "n div 2 < 2 ^ bit_length (n div 2)"
      by simp_all
    have pos: "0 < bit_length (n div 2)"
      using False by (simp add: bit_length.simps [of "n div 2"])
    have len: "bit_length n = Suc (bit_length (n div 2))"
      using "1.prems" by (simp add: bit_length.simps [of n])
    have eq: "2 * 2 ^ (bit_length (n div 2) - 1) = (2 :: nat) ^ bit_length (n div 2)"
      using pos by (cases "bit_length (n div 2)") simp_all
    have "2 * 2 ^ (bit_length (n div 2) - 1) \<le> 2 * (n div 2)"
      using ih(1) by simp
    also have "\<dots> \<le> n" by simp
    finally have lower: "2 ^ bit_length (n div 2) \<le> n"
      by (simp only: eq)
    from ih(2) have upper: "n < 2 * 2 ^ bit_length (n div 2)" by arith
    from lower upper show ?thesis by (simp add: len)
  qed
qed

lemma bit_length_unique:
  assumes "2 ^ k \<le> n" and "n < 2 ^ Suc k"
  shows "bit_length n = Suc k"
proof -
  from assms(1) have pos: "0 < n"
    by (cases n) simp_all
  note b = bit_length_bounds [OF pos]
  from b assms(2) have "(2 :: nat) ^ (bit_length n - 1) < 2 ^ Suc k"
    by (blast intro: le_less_trans)
  then have up: "bit_length n - 1 < Suc k"
    by (simp only: power_strict_increasing_iff one_less_numeral_iff semiring_norm)
  from b assms(1) have "(2 :: nat) ^ k < 2 ^ bit_length n"
    by (blast intro: le_less_trans)
  then have low: "k < bit_length n"
    by (simp only: power_strict_increasing_iff one_less_numeral_iff semiring_norm)
  from up low show ?thesis by arith
qed

lemma bit_length_Suc_0: "bit_length (Suc 0) = Suc 0"
proof -
  have "bit_length (Suc 0) = Suc (bit_length 0)"
    by (subst bit_length.simps) simp
  then show ?thesis by (simp add: bit_length.simps [of 0])
qed

lemma bit_length_le: "0 < n \<Longrightarrow> n < 2 ^ k \<Longrightarrow> bit_length n \<le> k"
proof -
  assume pos: "0 < n" and lt: "n < 2 ^ k"
  from bit_length_bounds [OF pos] lt have "(2 :: nat) ^ (bit_length n - 1) < 2 ^ k"
    by (blast intro: le_less_trans)
  then have "bit_length n - 1 < k"
    by (simp only: power_strict_increasing_iff one_less_numeral_iff semiring_norm)
  then show ?thesis by arith
qed

lemma bit_length_pos: "0 < n \<Longrightarrow> 0 < bit_length n"
  by (simp add: bit_length.simps [of n])

lemma round_to_double_unfold:
  assumes "a \<noteq> 0" and "bit_length a = la" and "bit_length b = lb"
  shows "round_to_double a b =
     (let d = int la - int lb;
          e = (if b * 2 ^ nat d \<le> a * 2 ^ nat (- d) then d else d - 1);
          p = max (e - 52) (- 1074);
          m = round_half_even (a * 2 ^ nat (- p)) (b * 2 ^ nat p);
          v = of_nat m * pow2 p
      in if 2 ^ 1024 \<le> v then PosInf else Fin v)"
  using assms by (simp add: round_to_double_def)

lemma round_to_double_exact:
  assumes "0 < n" and "n < 2 ^ 53"
  shows "round_to_double n (Suc 0) = Fin (of_nat n)"
proof -
  define l where "l = bit_length n"
  have l: "0 < l" "l \<le> 53"
    using bit_length_pos [OF assms(1)] bit_length_le [OF assms] by (simp_all add: l_def)
  have lower: "2 ^ (l - 1) \<le> n"
    using bit_length_bounds [OF assms(1)] by (simp add: l_def)
  define k where "k = 53 - l"
  have nz: "n \<noteq> 0" using assms(1) by simp
  have d: "int l - int (Suc 0) = int (l - 1)"
    using l by simp
  have e: "(if Suc 0 * 2 ^ nat (int (l - 1)) \<le> n * 2 ^ nat (- int (l - 1))
            then int (l - 1) else int (l - 1) - 1) = int (l - 1)"
    using lower by simp
  have p: "max (int (l - 1) - 52) (- 1074) = - int k"
    using l by (simp add: k_def)
  have m: "round_half_even (n * 2 ^ nat (- (- int k))) (Suc 0 * 2 ^ nat (- int k)) = n * 2 ^ k"
    by (simp add: round_half_even_def)
  have v: "(of_nat (n * 2 ^ k) :: rat) * pow2 (- int k) = of_nat n"
    by (simp add: pow2_def)
  have small: "\<not> (2 :: rat) ^ 1024 \<le> of_nat n"
  proof -
    have "(of_nat n :: rat) < of_nat (2 ^ 53)"
      using assms(2) by (simp only: of_nat_less_iff)
    also have "\<dots> < 2 ^ 1024" by simp
    finally show ?thesis by simp
  qed
  have "round_to_double n (Suc 0) =
      (if (2 :: rat) ^ 1024 \<le> of_nat n then PosInf else Fin (of_nat n))"
    unfolding round_to_double_unfold [OF nz l_def [symmetric] bit_length_Suc_0] Let_def d e p m v
    by (rule refl)
  with small show ?thesis by (simp only: if_False)
qed

lemma round_to_double_overflow: "round_to_double (10 ^ 309) (Suc 0) = PosInf"
proof -
  have len: "bit_length (10 ^ 309) = Suc 1026"
    by (rule bit_length_unique) simp_all
  have nz: "(10 :: nat) ^ 309 \<noteq> 0"
    by simp
  show ?thesis
    unfolding round_to_double_unfold [OF nz len bit_length_Suc_0]
    by (simp add: round_half_even_def pow2_def Let_def)
qed

lemma round_to_double_underflow: "round_to_double (Suc 0) (10 ^ 400) = Fin 0"
proof -
  have len: "bit_length (10 ^ 400) = Suc 1328"
    by (rule bit_length_unique) simp_all
  have nz: "Suc 0 \<noteq> 0"
    by simp
  show ?thesis
    unfolding round_to_double_unfold [OF nz bit_length_Suc_0 len]
    by (simp add: round_half_even_def pow2_def Let_def)
qed

lemma js_gt_zero_iff: "js_gt x (Fin 0) \<longleftrightarrow> x = PosInf \<or> (\<exists>v. x = Fin v \<and> 0 < v)"
  by (cases x) (simp_all add: js_gt_def)

lemma not_one_if_not_positive: "js_isNaN x \<or> js_le x (Fin 0) \<Longrightarrow> x \<noteq> Fin 1"
  by (cases x) (auto simp: js_isNaN_def)

lemma isDigit_plain: "isDigit c \<Longrightarrow> \<not> isWhiteSpace c \<and> c \<noteq> CHR ''-'' \<and> c \<noteq> CHR ''+''"
  by (auto simp: isDigit_def isWhiteSpace_def)

lemma digits_value_snoc: "digits_value (ds @ [c]) = 10 * digits_value ds + digit_value c"
  by (simp add: digits_value_def)

lemma digits_value_zeros:
  "digits_value (ds @ replicate k CHR ''0'') = digits_value ds * 10 ^ k"
proof (induction k)
  case 0
  show ?case by simp
next
  case (Suc k)
  have "ds @ replicate (Suc k) CHR ''0'' = (ds @ replicate k CHR ''0'') @ [CHR ''0'']"
    by (simp add: replicate_append_same)
  then show ?case
    by (simp only: digits_value_snoc Suc.IH) (simp add: digit_value_def)
qed

lemma parseInt_digits_prefix:
  assumes "ds \<noteq> []" and "list_all isDigit ds"
    and "case rest of [] \<Rightarrow> True | c # _ \<Rightarrow> \<not> isDigit c"
  shows "parseInt (ds @ rest) = round_to_double (digits_value ds) (Suc 0)"
proof -
  obtain d ds' where ds: "ds = d # ds'"
    using assms(1) by (cases ds) auto
  with assms(2) have d: "isDigit d"
    by simp
  have tw: "takeWhile isDigit (ds @ rest) = ds"
    using assms(2,3) by (cases rest) (auto simp: list_all_iff takeWhile_append2)
  show ?thesis
    using isDigit_plain [OF d] tw assms(1) by (simp add: parseInt_def ds)
qed

lemma getRequiredApprovesAmount_regex_unfold:
  "getRequiredApprovesAmount_regex s =
     (if (\<exists>c \<in> set s. isDigit c) \<and> js_gt (parseInt s) (Fin 0) then parseInt s else Fin 1)"
  by (simp add: getRequiredApprovesAmount_regex_def regex_digits_test_iff
      DEFAULT_AMOUNT_def Let_def)

lemma round_to_double_zero: "round_to_double 0 b = Fin 0"
  by (simp add: round_to_double_def)

lemmas parser_eval =
  parseInt_def jsNumber_def trim_ws_def non_decimal_def unsigned_decimal_def
  isWhiteSpace_def isDigit_def digits_value_def digit_value_def js_isNaN_def js_gt_def
  DEFAULT_AMOUNT_def decimal_to_double_def round_to_double_exact round_to_double_zero Let_def

lemma round_to_double_53: "round_to_double 9007199254740993 (Suc 0) = Fin 9007199254740992"
proof -
  have len: "bit_length 9007199254740993 = Suc 53"
    by (rule bit_length_unique) simp_all
  have nz: "(9007199254740993 :: nat) \<noteq> 0"
    by simp
  show ?thesis
    unfolding round_to_double_unfold [OF nz len bit_length_Suc_0]
    by (simp add: round_half_even_def pow2_def Let_def)
qed

lemma regex_rounds_to_double: "getRequiredApprovesAmount_regex ''9007199254740993'' = Fin 9007199254740992"
proof -
  have "parseInt ''9007199254740993'' = round_to_double 9007199254740993 (Suc 0)"
    by (simp add: parseInt_def isWhiteSpace_def isDigit_def digits_value_def digit_value_def)
  then have p: "parseInt ''9007199254740993'' = Fin 9007199254740992"
    by (simp only: round_to_double_53)
  have digit: "\<exists>c \<in> set ''9007199254740993''. isDigit c"
    by (simp add: isDigit_def)
  have gt: "js_gt (Fin 9007199254740992) (Fin 0)"
    by (simp add: js_gt_def)
  show ?thesis
    by (simp only: getRequiredApprovesAmount_regex_unfold digit gt p simp_thms if_True)
qed

lemma jsNumber_underflow: "jsNumber ''1e-400'' = Fin 0"
proof -
  have "jsNumber ''1e-400'' = round_to_double (Suc 0) (10 ^ 400)"
    by (simp add: jsNumber_def trim_ws_def non_decimal_def unsigned_decimal_def
        decimal_to_double_def isWhiteSpace_def isDigit_def digits_value_def digit_value_def Let_def)
  then show ?thesis
    by (simp only: round_to_double_underflow)
qed

lemma number_underflow_signal: "getRequiredApprovesAmount_number ''1e-400''
     = ([SetFailed ''Incorrect value of the `requiredApprovesAmount` input''], Fin 0)"
  by (simp add: getRequiredApprovesAmount_number_def jsNumber_underflow js_isNaN_def)

lemma regex_overflow: "getRequiredApprovesAmount_regex (CHR ''1'' # replicate 309 CHR ''0'') = PosInf"
proof -
  have ds: "[CHR ''1''] @ replicate 309 CHR ''0'' \<noteq> []"
    by simp
  have digits: "list_all isDigit ([CHR ''1''] @ replicate 309 CHR ''0'')"
    by (simp add: isDigit_def list_all_iff)
  have "parseInt (([CHR ''1''] @ replicate 309 CHR ''0'') @ [])
      = round_to_double (digits_value ([CHR ''1''] @ replicate 309 CHR ''0'')) (Suc 0)"
    by (rule parseInt_digits_prefix [OF ds digits]) simp
  also have "digits_value ([CHR ''1''] @ replicate 309 CHR ''0'') = 10 ^ 309"
    by (simp only: digits_value_zeros) (simp add: digits_value_def digit_value_def)
  finally have inf: "parseInt (CHR ''1'' # replicate 309 CHR ''0'') = PosInf"
    by (simp only: round_to_double_overflow append_Cons append_Nil append_Nil2)
  have digit: "\<exists>c \<in> set (CHR ''1'' # replicate 309 CHR ''0''). isDigit c"
    by (rule bexI [of _ "CHR ''1''"]) (simp_all add: isDigit_def)
  have gt: "js_gt PosInf (Fin 0)"
    by (simp add: js_gt_def)
  show ?thesis
    by (simp only: getRequiredApprovesAmount_regex_unfold digit gt inf simp_thms if_True)
qed

lemma filter_key_map_set:
  "distinct (map_keys m) \<Longrightarrow> filter (\<lambda>e. fst e = k) (map_set k v m) = [(k, v)]"
proof (induction m)
  case Nil
  show ?case by simp
next
  case (Cons e m)
  obtain k' v' where e: "e = (k', v')" by (cases e)
  from Cons.prems e have fresh: "k' \<notin> set (map_keys m)" and dist: "distinct (map_keys m)"
    by (simp_all add: map_keys_def)
  show ?case
  proof (cases "k' = k")
    case True
    with fresh have "filter (\<lambda>e. fst e = k) m = []"
      by (force simp: filter_empty_conv map_keys_def)
    with True show ?thesis by (simp add: e)
  next
    case False
    with Cons.IH [OF dist] show ?thesis by (simp add: e)
  qed
qed

lemma distinct_after_reviews: "distinct (map_keys (after_reviews rs))"
  using distinct_foldl_post_review [of "[]" rs] by (simp add: after_reviews_def map_keys_def)

lemma no_SetFailed_report_approval:
  "list_all (\<lambda>e. \<not> is_SetFailed e) (report_approval m required)"
  by (simp add: report_approval_def)

section \<open>Properties of the specification\<close>

subsection \<open>The approval verdict\<close>

text \<open>
  C1. For every review progress map and every threshold, \<open>isApproved\<close> is true if and
  only if the number of entries whose state is \<open>Approved\<close> is at least the threshold
  (with the \<open>>=\<close> of JavaScript, and so \<open>n \<le> \<dots>\<close> for a threshold that is the
  natural number \<open>n\<close>) and the number of entries whose state is \<open>ChangesRequested\<close>
  is zero. On the map that the two passes build, the entries are counted as the reviewer
  identities that hold the state. One entry with \<open>ChangesRequested\<close> makes the verdict
  false whatever the threshold and the other entries are.
\<close>

theorem isApproved_iff_counts:
  "(isApproved m required \<longleftrightarrow>
      js_ge (js_of_nat (length (filter (\<lambda>e. snd e = Approved) m))) required
      \<and> length (filter (\<lambda>e. snd e = ChangesRequested) m) = 0)
   \<and> (isApproved m (Fin (of_nat n)) \<longleftrightarrow>
      n \<le> length (filter (\<lambda>e. snd e = Approved) m)
      \<and> length (filter (\<lambda>e. snd e = ChangesRequested) m) = 0)
   \<and> (isApproved (codeReviewProgress rs ls) required \<longleftrightarrow>
      js_ge (js_of_nat (card {v. map_get (codeReviewProgress rs ls) v = Some Approved})) required
      \<and> card {v. map_get (codeReviewProgress rs ls) v = Some ChangesRequested} = 0)
   \<and> ((u, ChangesRequested) \<in> set m \<longrightarrow> \<not> isApproved m required)"
proof (intro conjI)
  show "isApproved m required \<longleftrightarrow>
      js_ge (js_of_nat (length (filter (\<lambda>e. snd e = Approved) m))) required
      \<and> length (filter (\<lambda>e. snd e = ChangesRequested) m) = 0"
    by (simp only: isApproved_def approvesAmount_entries changesRequestedAmount_entries)
  show "isApproved m (Fin (of_nat n)) \<longleftrightarrow>
      n \<le> length (filter (\<lambda>e. snd e = Approved) m)
      \<and> length (filter (\<lambda>e. snd e = ChangesRequested) m) = 0"
    by (simp only: isApproved_def approvesAmount_entries changesRequestedAmount_entries js_ge_nat)
  show "isApproved (codeReviewProgress rs ls) required \<longleftrightarrow>
      js_ge (js_of_nat (card {v. map_get (codeReviewProgress rs ls) v = Some Approved})) required
      \<and> card {v. map_get (codeReviewProgress rs ls) v = Some ChangesRequested} = 0"
    by (simp only: isApproved_def approvesAmount_def changesRequestedAmount_def
        card_holders [OF distinct_codeReviewProgress])
  show "(u, ChangesRequested) \<in> set m \<longrightarrow> \<not> isApproved m required"
    using changes_requested_blocks [of u m] by (simp add: isApproved_def)
qed

theorem isApproved_iff_counts_witness:
  "(''B'', ChangesRequested) \<in> set [(''A'', Approved), (''B'', ChangesRequested)]
   \<and> \<not> isApproved [(''A'', Approved), (''B'', ChangesRequested)] (Fin 1)"
  using isApproved_iff_counts
    [of "[(''A'', Approved), (''B'', ChangesRequested)]" "Fin 1" 1 "[]" "[]" "''B''"]
  by simp

subsection \<open>The review progress map\<close>

text \<open>
  C2. A reviewer identity that is the author of a posted review, of any state, and is
  also in the list of pending review requests is mapped to \<open>Pending\<close> by the map that
  the two passes build: the pass over the pending requests runs second and sets
  \<open>Pending\<close> without looking at what is there.
\<close>

theorem pending_overrides_review:
  assumes "\<exists>r \<in> set postedReviews. review_login r = Some u"
    and "u \<in> set requested"
  shows "map_get (codeReviewProgress postedReviews requested) u = Some Pending"
  using assms(2) by (simp add: codeReviewProgress_def map_get_foldl_request_pending)

theorem pending_overrides_review_witness:
  "(\<exists>r \<in> set [\<lparr>user = Some (GhUser (Some ''alice'')), state = Approved\<rparr>].
      review_login r = Some ''alice'')
   \<and> ''alice'' \<in> set [''alice'']
   \<and> map_get (codeReviewProgress
        [\<lparr>user = Some (GhUser (Some ''alice'')), state = Approved\<rparr>] [''alice'']) ''alice''
      = Some Pending"
proof -
  have author: "\<exists>r \<in> set [\<lparr>user = Some (GhUser (Some ''alice'')), state = Approved\<rparr>].
      review_login r = Some ''alice''"
    by (simp add: review_login_def)
  have pending: "''alice'' \<in> set [''alice'']"
    by simp
  from pending_overrides_review [OF author pending] author pending show ?thesis
    by blast
qed

text \<open>
  C3, as stated, fails for a reviewer who is also in the list of pending review requests:
  two reviews \<open>Approved\<close>, \<open>ChangesRequested\<close> by one reviewer who has a pending
  request give \<open>Pending\<close>, not \<open>ChangesRequested\<close>.
\<close>

theorem last_review_wins_counterexample:
  "map_get (codeReviewProgress
      [\<lparr>user = Some (GhUser (Some ''alice'')), state = Approved\<rparr>,
       \<lparr>user = Some (GhUser (Some ''alice'')), state = ChangesRequested\<rparr>]
      [''alice'']) ''alice'' = Some Pending
   \<and> Pending \<noteq> ChangesRequested"
  by (simp add: codeReviewProgress_def after_reviews_def post_review_def review_login_def
      request_pending_def Pending_def ChangesRequested_def)

text \<open>
  C3, amended. For a reviewer identity with one or more posted reviews (\<open>own\<close>, in the
  order of the input), the map after the pass over the reviews holds the state of the
  last of them; the final map holds that state when the identity is not in the list of
  pending review requests, and \<open>Pending\<close> when it is.
\<close>

theorem last_review_wins:
  assumes "own = filter (\<lambda>r. review_login r = Some u) postedReviews"
    and "own \<noteq> []"
  shows "map_get (after_reviews postedReviews) u = Some (state (last own))
    \<and> map_get (codeReviewProgress postedReviews requested) u =
        (if u \<in> set requested then Some Pending else Some (state (last own)))"
  using assms
  by (simp add: codeReviewProgress_def map_get_foldl_request_pending after_reviews_def
      map_get_foldl_post_review)

theorem last_review_wins_witness:
  "map_get (codeReviewProgress
      [\<lparr>user = Some (GhUser (Some ''alice'')), state = Approved\<rparr>,
       \<lparr>user = Some (GhUser (Some ''bob'')), state = Approved\<rparr>,
       \<lparr>user = Some (GhUser (Some ''alice'')), state = ChangesRequested\<rparr>]
      [''carol'']) ''alice'' = Some ChangesRequested"
  using last_review_wins
    [of "[\<lparr>user = Some (GhUser (Some ''alice'')), state = Approved\<rparr>,
          \<lparr>user = Some (GhUser (Some ''alice'')), state = ChangesRequested\<rparr>]"
        "''alice''"
        "[\<lparr>user = Some (GhUser (Some ''alice'')), state = Approved\<rparr>,
          \<lparr>user = Some (GhUser (Some ''bob'')), state = Approved\<rparr>,
          \<lparr>user = Some (GhUser (Some ''alice'')), state = ChangesRequested\<rparr>]"
        "[''carol'']"]
  by (simp add: review_login_def)

text \<open>
  C8. A posted review whose reviewer identity is \<open>null\<close> or missing
  (\<open>review_login r = None\<close>: no user, or a user with no login) adds nothing: the map
  built from a sequence that holds it is the map built from the sequence without it.
  The same holds for the set of the lead reviewer entry point.
\<close>

theorem review_without_login_skipped:
  assumes "review_login r = None"
  shows "codeReviewProgress (before @ r # after) requested
           = codeReviewProgress (before @ after) requested
    \<and> requestedReviewers (before @ r # after) pendingReviewers
           = requestedReviewers (before @ after) pendingReviewers"
  using assms
  by (simp add: codeReviewProgress_def after_reviews_def requestedReviewers_def
      post_review_no_login add_review_author_no_login)

theorem review_without_login_skipped_witness:
  "review_login \<lparr>user = None, state = ChangesRequested\<rparr> = None
   \<and> codeReviewProgress
        [\<lparr>user = Some (GhUser (Some ''alice'')), state = Approved\<rparr>,
         \<lparr>user = None, state = ChangesRequested\<rparr>] []
      = codeReviewProgress [\<lparr>user = Some (GhUser (Some ''alice'')), state = Approved\<rparr>] []"
proof -
  have ghost: "review_login \<lparr>user = None, state = ChangesRequested\<rparr> = None"
    by (simp add: review_login_def)
  from review_without_login_skipped
    [OF ghost, of "[\<lparr>user = Some (GhUser (Some ''alice'')), state = Approved\<rparr>]" "[]" "[]" "[]"]
    ghost
  show ?thesis by simp
qed

text \<open>
  C9. At every point of the two passes, that is after any number \<open>i\<close> of the posted
  reviews and any number \<open>j\<close> of the pending requests, the map has at most one entry
  for each reviewer identity, and so has the set of the lead reviewer entry point.
  Setting a state for an identity leaves exactly one entry for it, which holds the
  state that was set: the last write wins. It adds an entry to the map only when the
  identity was not a key, and leaves what the map holds for every other identity. So
  after one more posted review of a reviewer the one entry of that reviewer holds the
  state of that review, and after one more pending request it holds \<open>Pending\<close>.
\<close>

theorem one_state_per_reviewer:
  "length (filter (\<lambda>e. fst e = u)
      (codeReviewProgress (take i postedReviews) (take j requested))) \<le> 1
   \<and> distinct (map_keys (codeReviewProgress (take i postedReviews) (take j requested)))
   \<and> length (filter (\<lambda>e. fst e = u)
        (map_set u s (codeReviewProgress postedReviews requested))) = 1
   \<and> length (map_set u s (codeReviewProgress postedReviews requested)) =
       (if u \<in> set (map_keys (codeReviewProgress postedReviews requested))
        then length (codeReviewProgress postedReviews requested)
        else length (codeReviewProgress postedReviews requested) + 1)
   \<and> distinct (requestedReviewers (take i postedReviews) (take j pendingReviewers))
   \<and> filter (\<lambda>e. fst e = u) (map_set u s (codeReviewProgress postedReviews requested))
       = [(u, s)]
   \<and> map_get (map_set u s (codeReviewProgress postedReviews requested)) u = Some s
   \<and> (v \<noteq> u \<longrightarrow>
        map_get (map_set u s (codeReviewProgress postedReviews requested)) v
          = map_get (codeReviewProgress postedReviews requested) v)
   \<and> (review_login r = Some u \<longrightarrow>
        filter (\<lambda>e. fst e = u) (after_reviews (postedReviews @ [r])) = [(u, state r)])
   \<and> filter (\<lambda>e. fst e = u) (codeReviewProgress postedReviews (requested @ [u]))
       = [(u, Pending)]"
proof (intro conjI)
  show "length (filter (\<lambda>e. fst e = u)
      (codeReviewProgress (take i postedReviews) (take j requested))) \<le> 1"
    by (rule count_entries_distinct [OF distinct_codeReviewProgress])
  show "distinct (map_keys (codeReviewProgress (take i postedReviews) (take j requested)))"
    by (rule distinct_codeReviewProgress)
  show one: "filter (\<lambda>e. fst e = u) (map_set u s (codeReviewProgress postedReviews requested))
       = [(u, s)]"
    by (rule filter_key_map_set [OF distinct_codeReviewProgress])
  show "length (filter (\<lambda>e. fst e = u)
      (map_set u s (codeReviewProgress postedReviews requested))) = 1"
    by (simp only: one) simp
  show "length (map_set u s (codeReviewProgress postedReviews requested)) =
       (if u \<in> set (map_keys (codeReviewProgress postedReviews requested))
        then length (codeReviewProgress postedReviews requested)
        else length (codeReviewProgress postedReviews requested) + 1)"
    using arg_cong [OF map_keys_map_set [of u s "codeReviewProgress postedReviews requested"],
        of length]
    by (simp add: map_keys_def split: if_splits)
  show "distinct (requestedReviewers (take i postedReviews) (take j pendingReviewers))"
    by (rule distinct_requestedReviewers)
  show "map_get (map_set u s (codeReviewProgress postedReviews requested)) u = Some s"
    by (simp add: map_get_map_set)
  show "v \<noteq> u \<longrightarrow>
        map_get (map_set u s (codeReviewProgress postedReviews requested)) v
          = map_get (codeReviewProgress postedReviews requested) v"
    by (simp add: map_get_map_set)
  show "review_login r = Some u \<longrightarrow>
        filter (\<lambda>e. fst e = u) (after_reviews (postedReviews @ [r])) = [(u, state r)]"
  proof
    assume author: "review_login r = Some u"
    have "after_reviews (postedReviews @ [r]) = map_set u (state r) (after_reviews postedReviews)"
      by (simp add: after_reviews_def post_review_def author)
    then show "filter (\<lambda>e. fst e = u) (after_reviews (postedReviews @ [r])) = [(u, state r)]"
      by (simp only: filter_key_map_set [OF distinct_after_reviews])
  qed
  have "codeReviewProgress postedReviews (requested @ [u])
      = map_set u Pending (codeReviewProgress postedReviews requested)"
    by (simp add: codeReviewProgress_def request_pending_def)
  then show "filter (\<lambda>e. fst e = u) (codeReviewProgress postedReviews (requested @ [u]))
       = [(u, Pending)]"
    by (simp only: filter_key_map_set [OF distinct_codeReviewProgress])
qed

theorem one_state_per_reviewer_witness:
  "length (filter (\<lambda>e. fst e = ''alice'')
      (codeReviewProgress
        (take 2 [\<lparr>user = Some (GhUser (Some ''alice'')), state = Approved\<rparr>,
                 \<lparr>user = Some (GhUser (Some ''alice'')), state = ChangesRequested\<rparr>])
        (take 1 [''alice'']))) \<le> 1
   \<and> review_login \<lparr>user = Some (GhUser (Some ''alice'')), state = ChangesRequested\<rparr>
       = Some ''alice''
   \<and> filter (\<lambda>e. fst e = ''alice'')
        (after_reviews
          ([\<lparr>user = Some (GhUser (Some ''alice'')), state = Approved\<rparr>]
           @ [\<lparr>user = Some (GhUser (Some ''alice'')), state = ChangesRequested\<rparr>]))
       = [(''alice'', ChangesRequested)]"
proof -
  have author: "review_login \<lparr>user = Some (GhUser (Some ''alice'')), state = ChangesRequested\<rparr>
       = Some ''alice''"
    by (simp add: review_login_def)
  from one_state_per_reviewer
    [of "''alice''" 2
        "[\<lparr>user = Some (GhUser (Some ''alice'')), state = Approved\<rparr>,
          \<lparr>user = Some (GhUser (Some ''alice'')), state = ChangesRequested\<rparr>]"
        1 "[''alice'']"]
  have first: "length (filter (\<lambda>e. fst e = ''alice'')
      (codeReviewProgress
        (take 2 [\<lparr>user = Some (GhUser (Some ''alice'')), state = Approved\<rparr>,
                 \<lparr>user = Some (GhUser (Some ''alice'')), state = ChangesRequested\<rparr>])
        (take 1 [''alice'']))) \<le> 1"
    by blast
  from one_state_per_reviewer
    [where u = "''alice''"
       and r = "\<lparr>user = Some (GhUser (Some ''alice'')), state = ChangesRequested\<rparr>"
       and postedReviews = "[\<lparr>user = Some (GhUser (Some ''alice'')), state = Approved\<rparr>]"]
    author
  have "filter (\<lambda>e. fst e = ''alice'')
        (after_reviews
          ([\<lparr>user = Some (GhUser (Some ''alice'')), state = Approved\<rparr>]
           @ [\<lparr>user = Some (GhUser (Some ''alice'')), state = ChangesRequested\<rparr>]))
       = [(''alice'', state \<lparr>user = Some (GhUser (Some ''alice'')), state = ChangesRequested\<rparr>)]"
    by blast
  then have last: "filter (\<lambda>e. fst e = ''alice'')
        (after_reviews
          ([\<lparr>user = Some (GhUser (Some ''alice'')), state = Approved\<rparr>]
           @ [\<lparr>user = Some (GhUser (Some ''alice'')), state = ChangesRequested\<rparr>]))
       = [(''alice'', ChangesRequested)]"
    by (simp only: review.simps)
  from first author last show ?thesis
    by (intro conjI)
qed

subsection \<open>The lead reviewer verdict\<close>

text \<open>
  C4. For every sequence of lead reviewers and every set of invited identities, the
  verdict is true if and only if every lead reviewer is one of the invited identities,
  compared as strings. The loop stops at the first lead reviewer that is missing: the
  verdict is false whatever follows it. With no lead reviewer the verdict is true
  whatever the invited set is.
\<close>

theorem areLeadReviewersInvited_iff:
  "(areLeadReviewersInvited invited leadReviewers \<longleftrightarrow>
      (\<forall>reviewer \<in> set leadReviewers. reviewer \<in> set invited))
   \<and> ((\<forall>reviewer \<in> set before. reviewer \<in> set invited) \<and> missing \<notin> set invited \<longrightarrow>
        \<not> areLeadReviewersInvited invited (before @ missing # rest))
   \<and> areLeadReviewersInvited invited []"
  by (auto simp: areLeadReviewersInvited_subset)

theorem areLeadReviewersInvited_iff_witness:
  "''X'' \<in> set [''X'', ''Z'']
   \<and> ''Y'' \<notin> set [''X'', ''Z'']
   \<and> \<not> areLeadReviewersInvited [''X'', ''Z''] ([''X''] @ ''Y'' # [''Z''])
   \<and> areLeadReviewersInvited [''X'', ''Y'', ''Z''] [''X'', ''Y'']"
proof -
  have present: "\<forall>reviewer \<in> set [''X'']. reviewer \<in> set [''X'', ''Z'']"
    and absent: "''Y'' \<notin> set [''X'', ''Z'']"
    and both: "\<forall>reviewer \<in> set [''X'', ''Y'']. reviewer \<in> set [''X'', ''Y'', ''Z'']"
    by simp_all
  from areLeadReviewersInvited_iff [of "[''X'', ''Z'']" "[''X'']" "[''X'']" "''Y''" "[''Z'']"]
    present absent
  have "\<not> areLeadReviewersInvited [''X'', ''Z''] ([''X''] @ ''Y'' # [''Z''])"
    by blast
  moreover from areLeadReviewersInvited_iff
    [of "[''X'', ''Y'', ''Z'']" "[''X'', ''Y'']" "[]" "''Y''" "[]"] both
  have "areLeadReviewersInvited [''X'', ''Y'', ''Z''] [''X'', ''Y'']"
    by blast
  ultimately show ?thesis using absent by simp
qed

subsection \<open>The required number of approvals\<close>

text \<open>
  C5, as stated, fails in both versions. With \<open>Number\<close>, the input \<open>0\<close> raises the
  failure signal and is itself the threshold: the invocation then publishes
  \<open>isApproved = true\<close> for a pull request with no review at all, which the threshold
  1 does not allow. With the regular expression, the input \<open>2.5\<close> gives the
  threshold 2.
\<close>

theorem default_threshold_counterexample:
  "getRequiredApprovesAmount_number ''0''
     = ([SetFailed ''Incorrect value of the `requiredApprovesAmount` input''], Fin 0)
   \<and> take 2 (run_approval
        \<lparr>aw_token = Some ''secret'', aw_repository = Some ''owner/repo'',
         aw_event_path = Some ''event.json'',
         aw_getGithubPayload = payload_file \<lparr>action = Some ''submitted'', pull_request = Some 7\<rparr>,
         aw_input = ''0'', aw_requests = Inr ([], [])\<rparr>)
      = [SetFailed ''Incorrect value of the `requiredApprovesAmount` input'',
         SetOutput ''isApproved'' ''true'']
   \<and> \<not> isApproved (codeReviewProgress [] []) (Fin 1)
   \<and> getRequiredApprovesAmount_regex ''2.5'' = Fin 2"
proof -
  have number: "getRequiredApprovesAmount_number ''0''
     = ([SetFailed ''Incorrect value of the `requiredApprovesAmount` input''], Fin 0)"
    by (simp add: getRequiredApprovesAmount_number_def parser_eval)
  have none: "codeReviewProgress [] [] = []"
    by (simp add: codeReviewProgress_def after_reviews_def)
  have zero: "isApproved [] (Fin 0)" and one: "\<not> isApproved [] (Fin 1)"
    by (simp_all add: isApproved_def approvesAmount_def changesRequestedAmount_def
        map_values_def js_ge_def js_of_nat_def)
  have regex: "getRequiredApprovesAmount_regex ''2.5'' = Fin 2"
    by (simp add: getRequiredApprovesAmount_regex_def parser_eval)
  show ?thesis
    by (simp add: run_approval_def doesGithubEnvExist_def payload_file_def number none zero one
        regex report_approval_def bool_str_def)
qed

text \<open>
  C5, amended. An input that is not set, which is read as the empty string, gives the
  threshold 1 in both versions, with no failure signal. In the version with the regular
  expression, an input with no decimal digit, or whose \<open>parseInt\<close> is \<open>NaN\<close> or not
  greater than 0, gives the threshold 1. In the version with \<open>Number\<close>, an input that
  is not empty and whose number is \<open>NaN\<close> or not greater than 0 raises the failure
  signal \<open>Incorrect value of the `requiredApprovesAmount` input\<close> and does not fall
  back to 1: what the function returns is that number. The number is the double that
  the input writes, so that \<open>1e-400\<close>, which is below every positive double, is 0
  and raises the signal.
\<close>

theorem default_threshold:
  "getRequiredApprovesAmount_regex [] = Fin 1
   \<and> getRequiredApprovesAmount_number [] = ([], Fin 1)
   \<and> ((\<forall>c \<in> set s. \<not> isDigit c) \<or> \<not> js_gt (parseInt s) (Fin 0) \<longrightarrow>
        getRequiredApprovesAmount_regex s = Fin 1)
   \<and> (s \<noteq> [] \<and> (js_isNaN (jsNumber s) \<or> js_le (jsNumber s) (Fin 0)) \<longrightarrow>
        fst (getRequiredApprovesAmount_number s)
          = [SetFailed ''Incorrect value of the `requiredApprovesAmount` input'']
        \<and> snd (getRequiredApprovesAmount_number s) = jsNumber s
        \<and> snd (getRequiredApprovesAmount_number s) \<noteq> Fin 1)
   \<and> getRequiredApprovesAmount_number ''1e-400''
        = ([SetFailed ''Incorrect value of the `requiredApprovesAmount` input''], Fin 0)"
proof (intro conjI)
  show "getRequiredApprovesAmount_regex [] = Fin 1"
    by (simp add: getRequiredApprovesAmount_regex_unfold)
  show "getRequiredApprovesAmount_number [] = ([], Fin 1)"
    by (simp add: getRequiredApprovesAmount_number_def DEFAULT_AMOUNT_def)
  show "(\<forall>c \<in> set s. \<not> isDigit c) \<or> \<not> js_gt (parseInt s) (Fin 0) \<longrightarrow>
        getRequiredApprovesAmount_regex s = Fin 1"
    by (auto simp: getRequiredApprovesAmount_regex_unfold)
  show "s \<noteq> [] \<and> (js_isNaN (jsNumber s) \<or> js_le (jsNumber s) (Fin 0)) \<longrightarrow>
        fst (getRequiredApprovesAmount_number s)
          = [SetFailed ''Incorrect value of the `requiredApprovesAmount` input'']
        \<and> snd (getRequiredApprovesAmount_number s) = jsNumber s
        \<and> snd (getRequiredApprovesAmount_number s) \<noteq> Fin 1"
  proof (intro impI, elim conjE)
    assume given: "s \<noteq> []" and bad: "js_isNaN (jsNumber s) \<or> js_le (jsNumber s) (Fin 0)"
    have result: "getRequiredApprovesAmount_number s
        = ([SetFailed ''Incorrect value of the `requiredApprovesAmount` input''], jsNumber s)"
      using given bad by (simp add: getRequiredApprovesAmount_number_def Let_def)
    from not_one_if_not_positive [OF bad] show
      "fst (getRequiredApprovesAmount_number s)
          = [SetFailed ''Incorrect value of the `requiredApprovesAmount` input'']
        \<and> snd (getRequiredApprovesAmount_number s) = jsNumber s
        \<and> snd (getRequiredApprovesAmount_number s) \<noteq> Fin 1"
      by (simp add: result)
  qed
  show "getRequiredApprovesAmount_number ''1e-400''
        = ([SetFailed ''Incorrect value of the `requiredApprovesAmount` input''], Fin 0)"
    by (rule number_underflow_signal)
qed

theorem default_threshold_witness:
  "list_all (\<lambda>c. \<not> isDigit c) ''none''
   \<and> getRequiredApprovesAmount_regex ''none'' = Fin 1
   \<and> ''-3'' \<noteq> [] \<and> js_le (jsNumber ''-3'') (Fin 0)
   \<and> fst (getRequiredApprovesAmount_number ''-3'')
        = [SetFailed ''Incorrect value of the `requiredApprovesAmount` input'']
   \<and> snd (getRequiredApprovesAmount_number ''-3'') = Fin (- 3)"
proof -
  have nodigit: "\<forall>c \<in> set ''none''. \<not> isDigit c"
    by (simp add: isDigit_def)
  have three: "jsNumber ''-3'' = Fin (- 3)"
    by (simp add: parser_eval)
  have negative: "''-3'' \<noteq> [] \<and> js_le (jsNumber ''-3'') (Fin 0)"
    by (simp add: three)
  from default_threshold [of "''none''"] nodigit
  have "getRequiredApprovesAmount_regex ''none'' = Fin 1"
    by blast
  moreover from default_threshold [of "''-3''"] negative
  have "fst (getRequiredApprovesAmount_number ''-3'')
        = [SetFailed ''Incorrect value of the `requiredApprovesAmount` input'']
      \<and> snd (getRequiredApprovesAmount_number ''-3'') = jsNumber ''-3''"
    by blast
  moreover have "list_all (\<lambda>c. \<not> isDigit c) ''none''"
    by (simp add: isDigit_def)
  ultimately show ?thesis
    using negative by (simp only: three) blast
qed

text \<open>
  C10. In the version with the regular expression, for every input string (the empty
  one too): when the string has a decimal digit somewhere and \<open>parseInt\<close> of it is
  greater than 0, what \<open>parseInt\<close> gives is returned, be it a number \<open>v\<close> or
  \<open>Infinity\<close>; for every other string 1 is returned. So a string that starts with any
  number of digits, followed by anything that is not a digit, gives the value of those
  digits when that is positive and below \<open>2 ^ 53\<close>, where every integer is a double:
  \<open>100\<close> gives 100 and \<open>12abc\<close> gives 12, while \<open>a1\<close>, whose digit is not at
  the start, gives 1. Beyond that the value is the nearest double:
  \<open>9007199254740993\<close> gives 9007199254740992, and 1 followed by 309 zeros gives
  \<open>Infinity\<close>. The function has no effect, and an invocation whose requests succeed
  raises no failure signal whatever the input is.
\<close>

theorem getRequiredApprovesAmount_regex_cases:
  "((\<exists>c \<in> set s. isDigit c) \<and> js_gt (parseInt s) (Fin 0) \<longrightarrow>
      getRequiredApprovesAmount_regex s = parseInt s)
   \<and> ((\<exists>c \<in> set s. isDigit c) \<and> parseInt s = Fin v \<and> 0 < v \<longrightarrow>
      getRequiredApprovesAmount_regex s = Fin v)
   \<and> (\<not> ((\<exists>c \<in> set s. isDigit c) \<and> js_gt (parseInt s) (Fin 0)) \<longrightarrow>
      getRequiredApprovesAmount_regex s = Fin 1)
   \<and> (ds \<noteq> [] \<and> list_all isDigit ds \<and> (case rest of [] \<Rightarrow> True | c # _ \<Rightarrow> \<not> isDigit c)
        \<and> 0 < digits_value ds \<and> digits_value ds < 2 ^ 53 \<longrightarrow>
      getRequiredApprovesAmount_regex (ds @ rest) = Fin (of_nat (digits_value ds)))
   \<and> getRequiredApprovesAmount_regex ''100'' = Fin 100
   \<and> getRequiredApprovesAmount_regex ''12abc'' = Fin 12
   \<and> getRequiredApprovesAmount_regex ''a1'' = Fin 1
   \<and> getRequiredApprovesAmount_regex ''9007199254740993'' = Fin 9007199254740992
   \<and> getRequiredApprovesAmount_regex (CHR ''1'' # replicate 309 CHR ''0'') = PosInf
   \<and> (rw_token w = Some t \<and> rw_repository w = Some rp \<and> rw_event_path w = Some path
        \<and> rw_getGithubPayload w path = Inr payload \<and> pull_request payload \<noteq> None
        \<and> isAcceptableAction (action payload)
        \<and> rw_listReviews w = Inr rs \<and> rw_listRequestedReviewers w = Inr ls \<longrightarrow>
      run_review w = report_approval (codeReviewProgress rs ls)
                       (getRequiredApprovesAmount_regex (rw_input w))
      \<and> list_all (\<lambda>e. \<not> is_SetFailed e) (run_review w))"
proof (intro conjI)
  show "(\<exists>c \<in> set s. isDigit c) \<and> js_gt (parseInt s) (Fin 0) \<longrightarrow>
      getRequiredApprovesAmount_regex s = parseInt s"
    by (simp add: getRequiredApprovesAmount_regex_unfold)
  show "(\<exists>c \<in> set s. isDigit c) \<and> parseInt s = Fin v \<and> 0 < v \<longrightarrow>
      getRequiredApprovesAmount_regex s = Fin v"
    by (simp add: getRequiredApprovesAmount_regex_unfold js_gt_def)
  show "\<not> ((\<exists>c \<in> set s. isDigit c) \<and> js_gt (parseInt s) (Fin 0)) \<longrightarrow>
      getRequiredApprovesAmount_regex s = Fin 1"
    by (auto simp: getRequiredApprovesAmount_regex_unfold)
  show "ds \<noteq> [] \<and> list_all isDigit ds \<and> (case rest of [] \<Rightarrow> True | c # _ \<Rightarrow> \<not> isDigit c)
        \<and> 0 < digits_value ds \<and> digits_value ds < 2 ^ 53 \<longrightarrow>
      getRequiredApprovesAmount_regex (ds @ rest) = Fin (of_nat (digits_value ds))"
  proof (intro impI, elim conjE)
    assume ds: "ds \<noteq> []" "list_all isDigit ds"
      and rest: "case rest of [] \<Rightarrow> True | c # _ \<Rightarrow> \<not> isDigit c"
      and pos: "0 < digits_value ds" and small: "digits_value ds < 2 ^ 53"
    have "parseInt (ds @ rest) = round_to_double (digits_value ds) (Suc 0)"
      by (rule parseInt_digits_prefix [OF ds rest])
    then have parsed: "parseInt (ds @ rest) = Fin (of_nat (digits_value ds))"
      by (simp only: round_to_double_exact [OF pos small])
    moreover have "\<exists>c \<in> set (ds @ rest). isDigit c"
      using ds by (cases ds) auto
    ultimately show "getRequiredApprovesAmount_regex (ds @ rest) = Fin (of_nat (digits_value ds))"
      using pos by (simp add: getRequiredApprovesAmount_regex_unfold js_gt_def del: set_append)
  qed
  show "getRequiredApprovesAmount_regex ''100'' = Fin 100"
    by (simp add: getRequiredApprovesAmount_regex_def parser_eval)
  show "getRequiredApprovesAmount_regex ''12abc'' = Fin 12"
    by (simp add: getRequiredApprovesAmount_regex_def parser_eval)
  show "getRequiredApprovesAmount_regex ''a1'' = Fin 1"
    by (simp add: getRequiredApprovesAmount_regex_def parser_eval)
  show "getRequiredApprovesAmount_regex ''9007199254740993'' = Fin 9007199254740992"
    by (rule regex_rounds_to_double)
  show "getRequiredApprovesAmount_regex (CHR ''1'' # replicate 309 CHR ''0'') = PosInf"
    by (rule regex_overflow)
  show "rw_token w = Some t \<and> rw_repository w = Some rp \<and> rw_event_path w = Some path
        \<and> rw_getGithubPayload w path = Inr payload \<and> pull_request payload \<noteq> None
        \<and> isAcceptableAction (action payload)
        \<and> rw_listReviews w = Inr rs \<and> rw_listRequestedReviewers w = Inr ls \<longrightarrow>
      run_review w = report_approval (codeReviewProgress rs ls)
                       (getRequiredApprovesAmount_regex (rw_input w))
      \<and> list_all (\<lambda>e. \<not> is_SetFailed e) (run_review w)"
    by (simp add: run_review_def isExistGithubEnvironmentVariables_def
        no_SetFailed_report_approval)
qed

theorem getRequiredApprovesAmount_regex_cases_witness:
  "(\<exists>c \<in> set ''7 days''. isDigit c) \<and> parseInt ''7 days'' = Fin 7 \<and> (0 :: rat) < 7
   \<and> getRequiredApprovesAmount_regex ''7 days'' = Fin 7
   \<and> \<not> ((\<exists>c \<in> set ''-4''. isDigit c) \<and> js_gt (parseInt ''-4'') (Fin 0))
   \<and> getRequiredApprovesAmount_regex ''-4'' = Fin 1"
proof -
  have digit: "\<exists>c \<in> set ''7 days''. isDigit c"
    by (simp add: isDigit_def)
  have seven: "parseInt ''7 days'' = Fin 7"
    by (simp add: parser_eval)
  have minus: "parseInt ''-4'' = Fin (- 4)"
    by (simp add: parser_eval)
  have other: "\<not> ((\<exists>c \<in> set ''-4''. isDigit c) \<and> js_gt (parseInt ''-4'') (Fin 0))"
    by (simp add: minus js_gt_def)
  have pos: "(0 :: rat) < 7"
    by simp
  from getRequiredApprovesAmount_regex_cases [of "''7 days''" 7] digit seven pos
  have "getRequiredApprovesAmount_regex ''7 days'' = Fin 7"
    by blast
  moreover from getRequiredApprovesAmount_regex_cases [of "''-4''"] other
  have "getRequiredApprovesAmount_regex ''-4'' = Fin 1"
    by blast
  ultimately show ?thesis
    using digit seven pos other by blast
qed

subsection \<open>What an invocation does\<close>

text \<open>
  C6, as stated, fails for a trigger that has no pull request: an \<open>issues\<close> event with
  the action \<open>opened\<close> raises the failure signal, because the entry point looks for the
  pull request before it looks at the action.
\<close>

theorem unsupported_action_counterexample:
  "\<not> isAcceptableAction (Some ''opened'')
   \<and> run_review
        \<lparr>rw_token = Some ''secret'', rw_repository = Some ''owner/repo'',
         rw_event_path = Some ''event.json'', rw_event_name = Some ''issues'',
         rw_getGithubPayload = payload_file \<lparr>action = Some ''opened'', pull_request = None\<rparr>,
         rw_input = [], rw_listReviews = Inr [], rw_listRequestedReviewers = Inr []\<rparr>
      = [SetFailed ''This event doesn't contain PR'']"
  by (simp add: run_review_def isExistGithubEnvironmentVariables_def payload_file_def
      isAcceptableAction_def no_pr_msg_def)

text \<open>
  C6, amended. With the environment variables set and the event payload read, for every
  trigger whose action is neither \<open>submitted\<close> nor \<open>review_requested\<close>: when the
  payload has a pull request, the invocation ends normally and its only effect is the
  informational log; when it has none, its only effect is the failure signal
  \<open>This event doesn't contain PR\<close>. In both cases no verdict is computed and no
  output is published.
\<close>

theorem unsupported_action_exits_quietly:
  assumes "rw_token w = Some t" and "rw_repository w = Some rp"
    and "rw_event_path w = Some path" and "rw_getGithubPayload w path = Inr payload"
    and "action payload \<noteq> Some ''submitted''"
    and "action payload \<noteq> Some ''review_requested''"
  shows "(pull_request payload \<noteq> None \<longrightarrow>
            run_review w = [Info (template_str (rw_event_name w) @ ''/''
                                  @ template_str (action payload) @ ''/ isn't supported.'')])
    \<and> (pull_request payload = None \<longrightarrow>
            run_review w = [SetFailed ''This event doesn't contain PR''])
    \<and> list_all (\<lambda>e. \<not> is_SetOutput e) (run_review w)"
  using assms
  by (auto simp: run_review_def isExistGithubEnvironmentVariables_def isAcceptableAction_def
      no_pr_msg_def)

theorem unsupported_action_exits_quietly_witness:
  "run_review
     \<lparr>rw_token = Some ''secret'', rw_repository = Some ''owner/repo'',
      rw_event_path = Some ''event.json'', rw_event_name = Some ''pull_request_review'',
      rw_getGithubPayload = payload_file \<lparr>action = Some ''edited'', pull_request = Some 7\<rparr>,
      rw_input = ''2'', rw_listReviews = Inr [], rw_listRequestedReviewers = Inr []\<rparr>
   = [Info ''pull_request_review/edited/ isn't supported.'']"
  using unsupported_action_exits_quietly
    [of "\<lparr>rw_token = Some ''secret'', rw_repository = Some ''owner/repo'',
          rw_event_path = Some ''event.json'', rw_event_name = Some ''pull_request_review'',
          rw_getGithubPayload = payload_file \<lparr>action = Some ''edited'', pull_request = Some 7\<rparr>,
          rw_input = ''2'', rw_listReviews = Inr [], rw_listRequestedReviewers = Inr []\<rparr>"
        "''secret''" "''owner/repo''" "''event.json''"
        "\<lparr>action = Some ''edited'', pull_request = Some 7\<rparr>"]
  by (simp add: payload_file_def template_str_def)



end
